theory Spec2Isabelle
  imports Complex_Main "HOL-Library.Multiset" "HOL-Library.Sublist"
begin

section \<open>Data model\<close>

text \<open>
  The Go structs of the query server become records. Go strings are byte strings and are
  modelled as \<open>string\<close> (lists of 8-bit characters). The \<open>float32\<close> fields
  \<open>Score\<close> and \<open>Similarity\<close> are modelled by the real number they denote, with exact
  multiplication; the comparisons against \<open>1.0\<close> are the ones of the source. Rounding
  and not-a-number values are outside the model: the semantic backend computes
  \<open>1 / (1 + distance)\<close> and clamps it at \<open>1\<close>, so it delivers finite values.
\<close>

record SemanticCodeChunk =
  ID :: string
  Content :: string
  FileName :: string
  StartLine :: int
  EndLine :: int
  Type :: string
  Language :: string
  Embedding :: "real list"

record SemanticSearchResultV2 =
  Chunk :: SemanticCodeChunk
  Similarity :: real
  Score :: real

text \<open>
  \<open>zoekt.LineMatch\<close>, \<open>zoekt.FileMatch\<close> and \<open>zoekt.SearchResult\<close> belong to the
  keyword engine; only the fields read by the server are kept. Their field names carry a
  prefix, since \<open>FileName\<close> and \<open>Content\<close> are already fields of the chunk.
\<close>

record LineMatch =
  lm_Line :: string
  lm_LineNumber :: int
  lm_Before :: string
  lm_After :: string

record FileMatch =
  fm_FileName :: string
  fm_Repository :: string
  fm_LineMatches :: "LineMatch list"
  fm_Content :: string

record SearchResult =
  sr_Files :: "FileMatch list"

section \<open>Fusion: \<open>enhanceSemanticWithZoekt\<close>\<close>

text \<open>The lookup table \<open>zoektFileMap\<close>: a later file with the same name overwrites an earlier one.\<close>

definition zoektFileMap :: "FileMatch list \<Rightarrow> (string \<rightharpoonup> FileMatch)" where
  "zoektFileMap files = foldl (\<lambda>m file. m(fm_FileName file \<mapsto> file)) Map.empty files"

text \<open>The body of the loop over the semantic results.\<close>

definition enhanceResult :: "(string \<rightharpoonup> FileMatch) \<Rightarrow> SemanticSearchResultV2 \<Rightarrow> SemanticSearchResultV2" where
  "enhanceResult fileMap semResult =
     (case fileMap (FileName (Chunk semResult)) of
        Some zoektFile \<Rightarrow>
          (let s = Score semResult * 1.3;
               s' = (if s > 1.0 then 1.0 else s);
               m = Similarity semResult * 1.2;
               m' = (if m > 1.0 then 1.0 else m)
           in semResult\<lparr>Similarity := m', Score := s'\<rparr>)
      | None \<Rightarrow> semResult)"

text \<open>
  The re-sort is the hand-written exchange sort of the source:
  \<^verbatim>\<open>for i := 0; i < len(enhanced); i++ {
    for j := i + 1; j < len(enhanced); j++ {
      if enhanced[j].Score > enhanced[i].Score { swap enhanced[i], enhanced[j] } } }\<close>
\<close>

function sortInner :: "nat \<Rightarrow> nat \<Rightarrow> SemanticSearchResultV2 list \<Rightarrow> SemanticSearchResultV2 list" where
  "sortInner i j enhanced =
     (if j < length enhanced
      then sortInner i (j + 1)
             (if Score (enhanced ! j) > Score (enhanced ! i)
              then enhanced[i := enhanced ! j, j := enhanced ! i]
              else enhanced)
      else enhanced)"
  by pat_completeness auto
termination
  by (relation "measure (\<lambda>(i, j, enhanced). length enhanced - j)") auto

declare sortInner.simps [simp del]

lemma length_sortInner: "length (sortInner i j xs) = length xs"
  by (induction i j xs rule: sortInner.induct) (subst sortInner.simps, simp)

function sortOuter :: "nat \<Rightarrow> SemanticSearchResultV2 list \<Rightarrow> SemanticSearchResultV2 list" where
  "sortOuter i enhanced =
     (if i < length enhanced
      then sortOuter (i + 1) (sortInner i (i + 1) enhanced)
      else enhanced)"
  by pat_completeness auto
termination
  by (relation "measure (\<lambda>(i, enhanced). length enhanced - i)") (simp_all add: length_sortInner)

declare sortOuter.simps [simp del]

text \<open>
  The method receiver's \<open>s.searcher == nil\<close> test is the flag \<open>searcherNil\<close>; a nil
  \<open>zoektResult\<close> is \<open>None\<close>. The \<open>originalQuery\<close> argument is only logged.
\<close>

definition enhanceSemanticWithZoekt ::
  "bool \<Rightarrow> SemanticSearchResultV2 list \<Rightarrow> SearchResult option \<Rightarrow> string \<Rightarrow> SemanticSearchResultV2 list" where
  "enhanceSemanticWithZoekt searcherNil semanticResults zoektResult originalQuery =
     (case zoektResult of
        None \<Rightarrow> semanticResults
      | Some zr \<Rightarrow>
          if searcherNil then semanticResults
          else sortOuter 0 (map (enhanceResult (zoektFileMap (sr_Files zr))) semanticResults))"

definition sortInv :: "nat \<Rightarrow> SemanticSearchResultV2 list \<Rightarrow> bool" where
  "sortInv i xs \<longleftrightarrow>
     sorted_wrt (\<lambda>a b. Score b \<le> Score a) (take i xs) \<and>
     (\<forall>a \<in> set (take i xs). \<forall>b \<in> set (drop i xs). Score b \<le> Score a)"


text \<open>Example data for the concrete evaluations below.\<close>

definition semMatch :: "string \<Rightarrow> string \<Rightarrow> real \<Rightarrow> real \<Rightarrow> SemanticSearchResultV2" where
  "semMatch cid file sim score =
     \<lparr>Chunk = \<lparr>ID = cid, Content = [], FileName = file, StartLine = 1, EndLine = 1,
               Type = ''function'', Language = ''python'', Embedding = []\<rparr>,
      Similarity = sim, Score = score\<rparr>"

definition kwFile :: "string \<Rightarrow> FileMatch" where
  "kwFile name = \<lparr>fm_FileName = name, fm_Repository = ''repo'', fm_LineMatches = [], fm_Content = []\<rparr>"


subsection \<open>Properties of the re-sort and of the boost\<close>


lemma sortInner_take: "i < j \<Longrightarrow> take i (sortInner i j xs) = take i xs"
proof (induction i j xs rule: sortInner.induct)
  case (1 i j xs)
  show ?case
    using 1 by (subst sortInner.simps) (auto simp: length_sortInner)
qed

lemma mset_swap_drop:
  assumes "i < j" "j < length xs"
  shows "mset (drop i (xs[i := xs ! j, j := xs ! i])) = mset (drop i xs)"
proof -
  let ?ys = "xs[i := xs ! j, j := xs ! i]"
  have "mset ?ys = mset xs" using assms by (simp add: mset_swap)
  moreover have "take i ?ys = take i xs" using assms by simp
  moreover have "mset ?ys = mset (take i ?ys) + mset (drop i ?ys)"
    by (metis append_take_drop_id mset_append)
  moreover have "mset xs = mset (take i xs) + mset (drop i xs)"
    by (metis append_take_drop_id mset_append)
  ultimately show ?thesis by (metis add_left_cancel)
qed

lemma sortInner_mset_drop: "i < j \<Longrightarrow> mset (drop i (sortInner i j xs)) = mset (drop i xs)"
proof (induction i j xs rule: sortInner.induct)
  case (1 i j xs)
  show ?case
  proof (cases "j < length xs")
    case True
    then show ?thesis using 1 by (subst sortInner.simps) (auto simp: mset_swap_drop)
  next
    case False
    then show ?thesis by (subst sortInner.simps) simp
  qed
qed

lemma sortInner_max:
  "i < j \<Longrightarrow> (\<forall>k. i < k \<and> k < j \<and> k < length xs \<longrightarrow> Score (xs ! k) \<le> Score (xs ! i))
   \<Longrightarrow> i < k \<Longrightarrow> k < length xs \<Longrightarrow> Score (sortInner i j xs ! k) \<le> Score (sortInner i j xs ! i)"
proof (induction i j xs rule: sortInner.induct)
  case (1 i j xs)
  show ?case
  proof (cases "j < length xs")
    case False
    then show ?thesis using 1(3-) by (subst (1 2) sortInner.simps) auto
  next
    case True
    let ?xs' = "if Score (xs ! j) > Score (xs ! i) then xs[i := xs ! j, j := xs ! i] else xs"
    have len: "length ?xs' = length xs" by simp
    have inv: "\<forall>k. i < k \<and> k < j + 1 \<and> k < length ?xs' \<longrightarrow> Score (?xs' ! k) \<le> Score (?xs' ! i)"
    proof (intro allI impI)
      fix k assume k: "i < k \<and> k < j + 1 \<and> k < length ?xs'"
      show "Score (?xs' ! k) \<le> Score (?xs' ! i)"
      proof (cases "k = j")
        case True
        then show ?thesis using k 1(2) \<open>j < length xs\<close> by (auto simp: nth_list_update)
      next
        case False
        then have "k < j" using k by simp
        moreover have "k < length xs" using k len by simp
        ultimately have "Score (xs ! k) \<le> Score (xs ! i)" using 1(3) k by simp
        then show ?thesis using k \<open>k < j\<close> 1(2) \<open>j < length xs\<close> by (auto simp: nth_list_update)
      qed
    qed
    have "Score (sortInner i (j + 1) ?xs' ! k) \<le> Score (sortInner i (j + 1) ?xs' ! i)"
      using 1(1)[OF True _ inv] 1(2) 1(4) 1(5) len by simp
    then show ?thesis using True by (subst (1 2) sortInner.simps) simp
  qed
qed

lemma sortInv_step:
  assumes "i < length xs" "sortInv i xs"
  shows "sortInv (i + 1) (sortInner i (i + 1) xs)"
proof -
  let ?ys = "sortInner i (i + 1) xs"
  have len: "length ?ys = length xs" by (rule length_sortInner)
  have tk: "take i ?ys = take i xs" by (rule sortInner_take) simp
  have "mset (drop i ?ys) = mset (drop i xs)" by (rule sortInner_mset_drop) simp
  then have dr: "set (drop i ?ys) = set (drop i xs)" by (rule mset_eq_setD)
  have mx: "\<And>k. i < k \<Longrightarrow> k < length xs \<Longrightarrow> Score (?ys ! k) \<le> Score (?ys ! i)"
    by (rule sortInner_max) auto
  have yi: "?ys ! i \<in> set (drop i xs)"
    using assms(1) len dr by (metis Cons_nth_drop_Suc list.set_intros(1))
  have tk1: "take (i + 1) ?ys = take i xs @ [?ys ! i]"
    using assms(1) len tk by (simp add: take_Suc_conv_app_nth)
  have sub: "set (drop (i + 1) ?ys) \<subseteq> set (drop i xs)"
    using dr by (metis set_drop_subset_set_drop le_add1)
  have s1: "sorted_wrt (\<lambda>a b. Score b \<le> Score a) (take (i + 1) ?ys)"
    using assms(2) yi unfolding tk1 sortInv_def by (simp add: sorted_wrt_append)
  have s2: "Score b \<le> Score a" if "a \<in> set (take (i + 1) ?ys)" "b \<in> set (drop (i + 1) ?ys)" for a b
  proof -
    from that(2) obtain k where k: "b = ?ys ! (i + 1 + k)" "i + 1 + k < length xs"
      using len by (auto simp: in_set_conv_nth)
    from that(1) consider "a \<in> set (take i xs)" | "a = ?ys ! i" unfolding tk1 by auto
    then show ?thesis
    proof cases
      case 1
      then show ?thesis using assms(2) sub that(2) unfolding sortInv_def by blast
    next
      case 2
      then show ?thesis using mx[of "i + 1 + k"] k by simp
    qed
  qed
  show ?thesis unfolding sortInv_def using s1 s2 by blast
qed

lemma sortOuter_sortInv: "sortInv i xs \<Longrightarrow> sortInv (length xs) (sortOuter i xs)"
proof (induction i xs rule: sortOuter.induct)
  case (1 i xs)
  show ?case
  proof (cases "i < length xs")
    case True
    then show ?thesis
      using 1(1)[OF True sortInv_step[OF True 1(2)]]
      by (subst sortOuter.simps) (simp add: length_sortInner)
  next
    case False
    then show ?thesis using 1(2) by (subst sortOuter.simps) (simp add: sortInv_def)
  qed
qed

lemma length_sortOuter: "length (sortOuter i xs) = length xs"
  by (induction i xs rule: sortOuter.induct) (subst sortOuter.simps, simp add: length_sortInner)

lemma sortInner_mset: "i < j \<Longrightarrow> mset (sortInner i j xs) = mset xs"
  by (metis sortInner_take sortInner_mset_drop append_take_drop_id mset_append)

lemma sortOuter_mset: "mset (sortOuter i xs) = mset xs"
  by (induction i xs rule: sortOuter.induct) (subst sortOuter.simps, simp add: sortInner_mset)

lemma sortOuter_sorted: "sorted_wrt (\<lambda>a b. Score b \<le> Score a) (sortOuter 0 xs)"
proof -
  have "sortInv 0 xs" by (simp add: sortInv_def)
  then have "sortInv (length xs) (sortOuter 0 xs)" by (rule sortOuter_sortInv)
  then show ?thesis by (simp add: sortInv_def length_sortOuter)
qed

lemma dom_foldl_upd:
  "dom (foldl (\<lambda>m file. m(fm_FileName file \<mapsto> file)) m0 files) = dom m0 \<union> fm_FileName ` set files"
  by (induction files arbitrary: m0) auto

lemma zoektFileMap_found:
  "zoektFileMap files name \<noteq> None \<longleftrightarrow> name \<in> fm_FileName ` set files"
  using dom_foldl_upd[of Map.empty files] by (auto simp: zoektFileMap_def dom_def)

lemma enhanceResult_Chunk: "Chunk (enhanceResult fileMap r) = Chunk r"
  by (simp add: enhanceResult_def Let_def split: option.splits)

lemma enhanceResult_boost:
  "enhanceResult (zoektFileMap files) r =
     (if FileName (Chunk r) \<in> fm_FileName ` set files
      then r\<lparr>Similarity := min 1 (1.2 * Similarity r), Score := min 1 (1.3 * Score r)\<rparr>
      else r)"
proof (cases "zoektFileMap files (FileName (Chunk r))")
  case None
  then show ?thesis using zoektFileMap_found[of files "FileName (Chunk r)"]
    by (simp add: enhanceResult_def)
next
  case (Some f)
  then show ?thesis using zoektFileMap_found[of files "FileName (Chunk r)"]
    by (simp add: enhanceResult_def Let_def min_def mult.commute)
qed


subsection \<open>Claims about fusion\<close>

text \<open>
  \<^bold>\<open>C1.\<close> When the keyword result is present and the searcher is set (as it is on the
  hybrid path of \<open>HandleSearch\<close>, which has just called it), the fused list holds, up to
  the order fixed by the re-sort, exactly one element per semantic match: a match whose
  file name is among the keyword-matched files carries score \<open>min 1 (1.3 * score)\<close> and
  similarity \<open>min 1 (1.2 * similarity)\<close>, every other match is unchanged. At score
  \<open>0.9\<close> on a file with a keyword match the fused score is \<open>1\<close>, as evaluated after
  the theorem.
\<close>

theorem fusion_boost:
  "mset (enhanceSemanticWithZoekt False semanticResults (Some zoektResult) originalQuery) =
   mset (map (\<lambda>r. if FileName (Chunk r) \<in> fm_FileName ` set (sr_Files zoektResult)
                    then r\<lparr>Similarity := min 1 (1.2 * Similarity r), Score := min 1 (1.3 * Score r)\<rparr>
                    else r) semanticResults)"
proof -
  have "enhanceResult (zoektFileMap (sr_Files zoektResult)) =
        (\<lambda>r. if FileName (Chunk r) \<in> fm_FileName ` set (sr_Files zoektResult)
             then r\<lparr>Similarity := min 1 (1.2 * Similarity r), Score := min 1 (1.3 * Score r)\<rparr>
             else r)"
    by (rule ext) (rule enhanceResult_boost)
  then show ?thesis
    by (simp add: enhanceSemanticWithZoekt_def sortOuter_mset)
qed

theorem fusion_boost_witness:
  "mset (enhanceSemanticWithZoekt False [semMatch ''c1'' ''a.py'' 0.9 0.9, semMatch ''c2'' ''b.py'' 0.5 0.5]
           (Some \<lparr>sr_Files = [kwFile ''a.py'']\<rparr>) ''q'') =
   {#semMatch ''c1'' ''a.py'' 1 1, semMatch ''c2'' ''b.py'' 0.5 0.5#}"
  using fusion_boost[of "[semMatch ''c1'' ''a.py'' 0.9 0.9, semMatch ''c2'' ''b.py'' 0.5 0.5]"
          "\<lparr>sr_Files = [kwFile ''a.py'']\<rparr>" "''q''"]
  by (simp add: semMatch_def kwFile_def)

text \<open>
  \<^bold>\<open>C2\<close> fails as stated: only boosted values are clamped, and only from above. A match
  without keyword match keeps a score of \<open>2\<close>, and a boosted score of \<open>-1\<close> becomes
  \<open>-1.3\<close>.
\<close>

theorem fusion_bound_counterexample:
  "Score (enhanceSemanticWithZoekt False [semMatch ''c1'' ''b.py'' 2 2]
           (Some \<lparr>sr_Files = [kwFile ''a.py'']\<rparr>) ''q'' ! 0) = 2 \<and>
   Score (enhanceSemanticWithZoekt False [semMatch ''c1'' ''a.py'' (- 1) (- 1)]
           (Some \<lparr>sr_Files = [kwFile ''a.py'']\<rparr>) ''q'' ! 0) = - 1.3"
  by (simp add: enhanceSemanticWithZoekt_def sortOuter.simps sortInner.simps enhanceResult_def
        zoektFileMap_def semMatch_def kwFile_def)

text \<open>
  \<^bold>\<open>C2, amended.\<close> If every pre-fusion score and similarity lies in \<open>[0, 1]\<close> (what the
  semantic backend delivers), then every post-fusion score and similarity lies in
  \<open>[0, 1]\<close>.
\<close>

theorem fusion_bound:
  assumes "\<forall>r \<in> set semanticResults.
             0 \<le> Score r \<and> Score r \<le> 1 \<and> 0 \<le> Similarity r \<and> Similarity r \<le> 1"
  shows "\<forall>e \<in> set (enhanceSemanticWithZoekt searcherNil semanticResults zoektResult originalQuery).
             0 \<le> Score e \<and> Score e \<le> 1 \<and> 0 \<le> Similarity e \<and> Similarity e \<le> 1"
proof (cases "searcherNil \<or> zoektResult = None")
  case True
  then show ?thesis using assms
    by (auto simp: enhanceSemanticWithZoekt_def split: option.splits)
next
  case False
  then obtain zr where zr: "zoektResult = Some zr" "\<not> searcherNil" by auto
  let ?m = "zoektFileMap (sr_Files zr)"
  have "set (enhanceSemanticWithZoekt searcherNil semanticResults zoektResult originalQuery) =
        enhanceResult ?m ` set semanticResults"
    using zr mset_eq_setD[OF sortOuter_mset[of 0 "map (enhanceResult ?m) semanticResults"]]
    by (simp add: enhanceSemanticWithZoekt_def)
  moreover have "0 \<le> Score (enhanceResult ?m r) \<and> Score (enhanceResult ?m r) \<le> 1 \<and>
                 0 \<le> Similarity (enhanceResult ?m r) \<and> Similarity (enhanceResult ?m r) \<le> 1"
    if "r \<in> set semanticResults" for r
    using assms that by (auto simp: enhanceResult_def Let_def split: option.splits)
  ultimately show ?thesis by auto
qed

theorem fusion_bound_witness:
  "(0 \<le> Score (semMatch ''c1'' ''a.py'' 0.9 0.8) \<and> Score (semMatch ''c1'' ''a.py'' 0.9 0.8) \<le> 1 \<and>
    0 \<le> Similarity (semMatch ''c1'' ''a.py'' 0.9 0.8) \<and> Similarity (semMatch ''c1'' ''a.py'' 0.9 0.8) \<le> 1) \<and>
   enhanceSemanticWithZoekt False [semMatch ''c1'' ''a.py'' 0.9 0.8]
       (Some \<lparr>sr_Files = [kwFile ''a.py'']\<rparr>) ''q'' = [semMatch ''c1'' ''a.py'' 1 1] \<and>
   0 \<le> Score (semMatch ''c1'' ''a.py'' 1 1) \<and> Score (semMatch ''c1'' ''a.py'' 1 1) \<le> 1 \<and>
   0 \<le> Similarity (semMatch ''c1'' ''a.py'' 1 1) \<and> Similarity (semMatch ''c1'' ''a.py'' 1 1) \<le> 1"
proof -
  have h: "\<forall>r \<in> set [semMatch ''c1'' ''a.py'' 0.9 0.8].
             0 \<le> Score r \<and> Score r \<le> 1 \<and> 0 \<le> Similarity r \<and> Similarity r \<le> 1"
    by (simp add: semMatch_def)
  have out: "enhanceSemanticWithZoekt False [semMatch ''c1'' ''a.py'' 0.9 0.8]
       (Some \<lparr>sr_Files = [kwFile ''a.py'']\<rparr>) ''q'' = [semMatch ''c1'' ''a.py'' 1 1]"
    by (simp add: enhanceSemanticWithZoekt_def sortOuter.simps sortInner.simps enhanceResult_def
        zoektFileMap_def semMatch_def kwFile_def)
  show ?thesis
    using h out fusion_bound[OF h, of False "Some \<lparr>sr_Files = [kwFile ''a.py'']\<rparr>" "''q''"]
    by simp
qed

text \<open>
  \<^bold>\<open>C3\<close> fails as stated: the exchange sort is not stable. Three matches \<open>a\<close>, \<open>b\<close>,
  \<open>c\<close> with scores \<open>0.5\<close>, \<open>0.5\<close>, \<open>0.9\<close> and no keyword match come out as \<open>c\<close>,
  \<open>b\<close>, \<open>a\<close>: the tie between \<open>a\<close> and \<open>b\<close> is reversed.
\<close>

theorem fusion_unstable_counterexample:
  "map (ID \<circ> Chunk) (enhanceSemanticWithZoekt False
       [semMatch ''a'' ''x.py'' 0.5 0.5, semMatch ''b'' ''y.py'' 0.5 0.5, semMatch ''c'' ''z.py'' 0.9 0.9]
       (Some \<lparr>sr_Files = []\<rparr>) ''q'') = [''c'', ''b'', ''a'']"
  by (simp add: enhanceSemanticWithZoekt_def sortOuter.simps sortInner.simps enhanceResult_def
        zoektFileMap_def semMatch_def kwFile_def)

text \<open>
  \<^bold>\<open>C3, amended.\<close> The list returned by the fusion step is sorted by non-increasing
  post-fusion score; nothing is promised about the relative order of equal scores.
\<close>

theorem fusion_sorted:
  "sorted_wrt (\<lambda>a b. Score b \<le> Score a)
     (enhanceSemanticWithZoekt False semanticResults (Some zoektResult) originalQuery)"
  by (simp add: enhanceSemanticWithZoekt_def sortOuter_sorted)

text \<open>
  \<^bold>\<open>C10.\<close> Fusion neither adds nor drops results: the output has the length of the
  semantic input, and the chunks of the output (identifier, content, file name, line
  range, kind, language) are the chunks of the input, each as often as there.
\<close>

theorem fusion_frame:
  "length (enhanceSemanticWithZoekt searcherNil semanticResults zoektResult originalQuery) =
     length semanticResults \<and>
   mset (map Chunk (enhanceSemanticWithZoekt searcherNil semanticResults zoektResult originalQuery)) =
     mset (map Chunk semanticResults)"
proof -
  have "mset (map Chunk (sortOuter 0 (map (enhanceResult m) semanticResults))) =
        mset (map Chunk semanticResults)" for m
  proof -
    have "mset (map Chunk (sortOuter 0 (map (enhanceResult m) semanticResults))) =
          image_mset Chunk (mset (sortOuter 0 (map (enhanceResult m) semanticResults)))"
      by simp
    also have "\<dots> = image_mset Chunk (mset (map (enhanceResult m) semanticResults))"
      by (simp only: sortOuter_mset)
    also have "\<dots> = mset (map Chunk semanticResults)"
      by (simp add: image_mset.compositionality comp_def enhanceResult_Chunk)
    finally show ?thesis .
  qed
  then show ?thesis
    by (simp add: enhanceSemanticWithZoekt_def length_sortOuter split: option.splits)
qed


section \<open>String functions of the Go library\<close>

text \<open>
  The functions of package \<open>strings\<close> that the server calls, on byte strings (a Go string
  is a sequence of bytes, read as UTF-8 where runes matter).

  White space is \<open>unicode.IsSpace\<close>: \<open>spaceSeqs\<close> lists the UTF-8 encodings of its 25 runes
  (U+0009 to U+000D, U+0020, U+0085, U+00A0, U+1680, U+2000 to U+200A, U+2028, U+2029,
  U+202F, U+205F, U+3000). Every encoding begins with a byte that is no continuation byte,
  so a rune of the string is white space exactly when one of the encodings is a prefix of
  the text at that position (\<open>spacePrefix\<close>), and the last rune is white space exactly
  when one of them is a suffix (\<open>spaceSuffix\<close>). \<open>TrimSpace\<close> removes the leading white
  space and then the trailing white space (\<open>TrimLeftFunc\<close> and \<open>TrimRightFunc\<close> with
  \<open>unicode.IsSpace\<close>; the library's ASCII fast path computes the same string).

  \<open>ToLower\<close> maps the bytes \<open>A\<close> to \<open>Z\<close> when the string is ASCII, as the library does;
  on any other string the library returns \<open>Map(unicode.ToLower, s)\<close>, which reads the case
  tables of package \<open>unicode\<close>: that function is the parameter \<open>unicodeLower\<close>.

  \<open>Index\<close> returns \<open>None\<close> for Go's \<open>-1\<close>. The server calls \<open>Split\<close> with non-empty
  separators only.
\<close>

definition spaceSeqs :: "string list" where
  "spaceSeqs =
     [CHR 0x09] # [CHR 0x0A] # [CHR 0x0B] # [CHR 0x0C] # [CHR 0x0D] # [CHR 0x20] #
     [CHR 0xC2, CHR 0x85] # [CHR 0xC2, CHR 0xA0] #
     [CHR 0xE1, CHR 0x9A, CHR 0x80] #
     [CHR 0xE2, CHR 0x80, CHR 0x80] # [CHR 0xE2, CHR 0x80, CHR 0x81] # [CHR 0xE2, CHR 0x80, CHR 0x82] #
     [CHR 0xE2, CHR 0x80, CHR 0x83] # [CHR 0xE2, CHR 0x80, CHR 0x84] # [CHR 0xE2, CHR 0x80, CHR 0x85] #
     [CHR 0xE2, CHR 0x80, CHR 0x86] # [CHR 0xE2, CHR 0x80, CHR 0x87] # [CHR 0xE2, CHR 0x80, CHR 0x88] #
     [CHR 0xE2, CHR 0x80, CHR 0x89] # [CHR 0xE2, CHR 0x80, CHR 0x8A] #
     [CHR 0xE2, CHR 0x80, CHR 0xA8] # [CHR 0xE2, CHR 0x80, CHR 0xA9] # [CHR 0xE2, CHR 0x80, CHR 0xAF] #
     [CHR 0xE2, CHR 0x81, CHR 0x9F] #
     [CHR 0xE3, CHR 0x80, CHR 0x80] # []"

definition spacePrefix :: "string \<Rightarrow> string option" where
  "spacePrefix s = find (\<lambda>w. prefix w s) spaceSeqs"

definition spaceSuffix :: "string \<Rightarrow> string option" where
  "spaceSuffix s = find (\<lambda>w. suffix w s) spaceSeqs"

lemma spaceSeqs_nonempty: "w \<in> set spaceSeqs \<Longrightarrow> w \<noteq> []"
  by (auto simp: spaceSeqs_def)

lemma spacePrefix_Some: "spacePrefix s = Some w \<Longrightarrow> w \<noteq> [] \<and> prefix w s"
  unfolding spacePrefix_def find_Some_iff using spaceSeqs_nonempty by force

lemma spaceSuffix_Some: "spaceSuffix s = Some w \<Longrightarrow> w \<noteq> [] \<and> suffix w s"
  unfolding spaceSuffix_def find_Some_iff using spaceSeqs_nonempty by force

function trimLeftSpace :: "string \<Rightarrow> string" where
  "trimLeftSpace s =
     (case spacePrefix s of
        None \<Rightarrow> s
      | Some w \<Rightarrow> trimLeftSpace (drop (length w) s))"
  by pat_completeness auto
termination
proof (relation "measure length")
  show "wf (measure length)" by simp
next
  fix s w :: string
  assume "spacePrefix s = Some w"
  then have "w \<noteq> []" "prefix w s" by (simp_all add: spacePrefix_Some)
  then have "0 < length w" "length w \<le> length s" by (simp_all add: prefix_length_le)
  then have "length s - length w < length s" by linarith
  then show "(drop (length w) s, s) \<in> measure length" by simp
qed

declare trimLeftSpace.simps [simp del]

function trimRightSpace :: "string \<Rightarrow> string" where
  "trimRightSpace s =
     (case spaceSuffix s of
        None \<Rightarrow> s
      | Some w \<Rightarrow> trimRightSpace (take (length s - length w) s))"
  by pat_completeness auto
termination
proof (relation "measure length")
  show "wf (measure length)" by simp
next
  fix s w :: string
  assume "spaceSuffix s = Some w"
  then have "w \<noteq> []" "suffix w s" by (simp_all add: spaceSuffix_Some)
  then have "0 < length w" "length w \<le> length s" by (simp_all add: suffix_length_le)
  then have "length s - length w < length s" by linarith
  then show "(take (length s - length w) s, s) \<in> measure length" by simp
qed

declare trimRightSpace.simps [simp del]

definition TrimSpace :: "string \<Rightarrow> string" where
  "TrimSpace s = trimRightSpace (trimLeftSpace s)"

definition toLowerChar :: "char \<Rightarrow> char" where
  "toLowerChar c =
     (case map_of (zip ''ABCDEFGHIJKLMNOPQRSTUVWXYZ'' ''abcdefghijklmnopqrstuvwxyz'') c of
        Some l \<Rightarrow> l
      | None \<Rightarrow> c)"

definition isASCII :: "string \<Rightarrow> bool" where
  "isASCII s \<longleftrightarrow> list_all (\<lambda>c. (of_char c :: nat) < 128) s"

definition ToLower :: "(string \<Rightarrow> string) \<Rightarrow> string \<Rightarrow> string" where
  "ToLower unicodeLower s = (if isASCII s then map toLowerChar s else unicodeLower s)"

fun Index :: "string \<Rightarrow> string \<Rightarrow> nat option" where
  "Index [] substr = (if substr = [] then Some 0 else None)"
| "Index (c # cs) substr =
     (if prefix substr (c # cs) then Some 0 else map_option Suc (Index cs substr))"

definition Contains :: "string \<Rightarrow> string \<Rightarrow> bool" where
  "Contains s substr \<longleftrightarrow> Index s substr \<noteq> None"

lemma Index_bound: "Index s sep = Some m \<Longrightarrow> m + length sep \<le> length s"
proof (induction s arbitrary: m)
  case Nil
  then show ?case by (simp split: if_splits)
next
  case (Cons c cs)
  then show ?case by (auto split: if_splits dest: prefix_length_le)
qed

function Split :: "string \<Rightarrow> string \<Rightarrow> string list" where
  "Split s sep =
     (if sep = [] then map (\<lambda>c. [c]) s
      else case Index s sep of
             None \<Rightarrow> [s]
           | Some m \<Rightarrow> take m s # Split (drop (m + length sep) s) sep)"
  by pat_completeness auto
termination
proof (relation "measure (\<lambda>(s, sep). length s)")
  show "wf (measure (\<lambda>(s, sep). length s))" by simp
next
  fix s sep :: string and m :: nat
  assume "sep \<noteq> []" "Index s sep = Some m"
  then have "m + length sep \<le> length s" "length sep \<noteq> 0"
    by (auto dest: Index_bound)
  then have "length s - (m + length sep) < length s"
    by linarith
  then show "((drop (m + length sep) s, sep), (s, sep)) \<in> measure (\<lambda>(s, sep). length s)"
    by simp
qed

declare Split.simps [simp del]

definition TrimSuffix :: "string \<Rightarrow> string \<Rightarrow> string" where
  "TrimSuffix s suffix' = (if suffix suffix' s then take (length s - length suffix') s else s)"

definition TrimPrefix :: "string \<Rightarrow> string \<Rightarrow> string" where
  "TrimPrefix s prefix' = (if prefix prefix' s then drop (length prefix') s else s)"

fun Join :: "string list \<Rightarrow> string \<Rightarrow> string" where
  "Join [] sep = []"
| "Join [x] sep = x"
| "Join (x # y # ys) sep = x @ sep @ Join (y # ys) sep"

text \<open>
  \<open>Fields\<close> cuts the string at every run of white-space runes; \<open>fieldsLoop\<close> carries the
  field read so far.
\<close>

function fieldsLoop :: "string \<Rightarrow> string \<Rightarrow> string list" where
  "fieldsLoop cur s =
     (case s of
        [] \<Rightarrow> (if cur = [] then [] else [cur])
      | c # cs \<Rightarrow>
          (case spacePrefix s of
             Some w \<Rightarrow> (if cur = [] then [] else [cur]) @ fieldsLoop [] (drop (length w) s)
           | None \<Rightarrow> fieldsLoop (cur @ [c]) cs))"
  by pat_completeness auto
termination
proof (relation "measure (\<lambda>(cur, s). length s)")
  show "wf (measure (\<lambda>(cur, s). length s))" by simp
next
  fix cur s :: string and c cs w
  assume "s = c # cs" "spacePrefix s = Some w"
  then have "w \<noteq> []" by (simp add: spacePrefix_Some)
  then show "(([], drop (length w) s), (cur, s)) \<in> measure (\<lambda>(cur, s). length s)"
    using \<open>s = c # cs\<close> by simp
next
  fix cur s :: string and c cs
  assume "s = c # cs"
  then show "((cur @ [c], cs), (cur, s)) \<in> measure (\<lambda>(cur, s). length s)" by simp
qed

declare fieldsLoop.simps [simp del]

definition Fields :: "string \<Rightarrow> string list" where
  "Fields s = fieldsLoop [] s"

text \<open>Unfolding these equations evaluates the string functions on a literal.\<close>

lemmas strings_eval =
  TrimSpace_def trimLeftSpace.simps trimRightSpace.simps spacePrefix_def spaceSuffix_def spaceSeqs_def
  suffix_to_prefix ToLower_def isASCII_def toLowerChar_def Contains_def Split.simps TrimSuffix_def
  TrimPrefix_def Fields_def fieldsLoop.simps

lemma Split_nonempty: "sub \<noteq> [] \<Longrightarrow> Split s sub \<noteq> []"
  by (subst Split.simps) (auto split: option.splits)

lemma Split_Contains:
  assumes "sub \<noteq> []" "Contains q sub"
  obtains part0 part1 parts where "Split q sub = part0 # part1 # parts"
proof -
  from assms(2) obtain m where m: "Index q sub = Some m" by (auto simp: Contains_def)
  obtain y ys where "Split (drop (m + length sub) q) sub = y # ys"
    using Split_nonempty[OF assms(1)] by (metis list.exhaust)
  then have "Split q sub = take m q # y # ys"
    using m assms(1) by (subst Split.simps) simp
  then show ?thesis using that by blast
qed

section \<open>Pattern translator: \<open>BasicTranslator.Translate\<close>\<close>

text \<open>
  The four lexical patterns are tried in the order of the source; \<open>parts[1]\<close> is read only
  under the source's own guard \<open>len(parts) > 1\<close>. The result is the pair of the query and
  the intent type. The first argument is the parameter of \<open>ToLower\<close>.
\<close>

definition Translate :: "(string \<Rightarrow> string) \<Rightarrow> string \<Rightarrow> string \<times> string" where
  "Translate unicodeLower nlQuery =
     (let query = TrimSpace nlQuery;
          lower = ToLower unicodeLower query;
          queryType = ''search''
      in if Contains lower ''how many'' \<and> (Contains lower ''article'' \<or> Contains lower ''blog'')
         then (''title:'', ''count'')
         else if Contains lower ''list'' \<and> (Contains lower ''article'' \<or> Contains lower ''blog'')
         then (''title:'', ''list'')
         else if Contains lower ''find'' \<and> Contains lower ''article''
         then (if Contains lower ''about'' \<and> length (Split lower ''about'') > 1
               then (TrimSpace (Split lower ''about'' ! 1), ''find'')
               else (''title:'', ''find''))
         else if (Contains lower ''have'' \<or> Contains lower ''written about'') \<and> Contains lower ''about''
         then (let parts = Split lower ''about''
               in if length parts > 1
                  then (let topic = TrimSpace (parts ! 1);
                            topic = TrimSuffix topic '' in articles'';
                            topic = TrimSuffix topic '' or not'';
                            topic = TrimSpace topic
                        in (topic, ''yesno''))
                  else (''title:'', ''yesno''))
         else (query, queryType))"

lemma Translate_intent:
  "snd (Translate u nlQuery) \<in> {''search'', ''count'', ''list'', ''find'', ''yesno''}"
  unfolding Translate_def Let_def by simp

lemma Translate_search:
  "snd (Translate u nlQuery) = ''search'' \<longrightarrow> fst (Translate u nlQuery) = TrimSpace nlQuery"
  unfolding Translate_def Let_def by simp

lemma Translate_default:
  "\<not> (Contains (ToLower u (TrimSpace nlQuery)) ''how many'' \<and>
       (Contains (ToLower u (TrimSpace nlQuery)) ''article'' \<or> Contains (ToLower u (TrimSpace nlQuery)) ''blog'')) \<and>
   \<not> (Contains (ToLower u (TrimSpace nlQuery)) ''list'' \<and>
       (Contains (ToLower u (TrimSpace nlQuery)) ''article'' \<or> Contains (ToLower u (TrimSpace nlQuery)) ''blog'')) \<and>
   \<not> (Contains (ToLower u (TrimSpace nlQuery)) ''find'' \<and> Contains (ToLower u (TrimSpace nlQuery)) ''article'') \<and>
   \<not> ((Contains (ToLower u (TrimSpace nlQuery)) ''have'' \<or> Contains (ToLower u (TrimSpace nlQuery)) ''written about'') \<and>
       Contains (ToLower u (TrimSpace nlQuery)) ''about'')
   \<longrightarrow> Translate u nlQuery = (TrimSpace nlQuery, ''search'')"
  unfolding Translate_def Let_def by auto

text \<open>
  Under the test \<open>Contains lower "about"\<close> the split at \<open>about\<close> has at least two parts, so
  the branches that return \<open>title:\<close> for a single part are never taken.
\<close>

lemma Split_about: "Contains lower ''about'' \<Longrightarrow> length (Split lower ''about'') > 1"
  using Split_Contains[of "''about''" lower] by (metis length_Cons less_Suc_eq_0_disj list.simps(3) zero_less_Suc One_nat_def Suc_less_eq)

lemma Translate_empty:
  "fst (Translate u nlQuery) = [] \<longleftrightarrow>
     snd (Translate u nlQuery) = ''search'' \<and> TrimSpace nlQuery = [] \<or>
     snd (Translate u nlQuery) = ''find'' \<and> Contains (ToLower u (TrimSpace nlQuery)) ''about'' \<and>
       TrimSpace (Split (ToLower u (TrimSpace nlQuery)) ''about'' ! 1) = [] \<or>
     snd (Translate u nlQuery) = ''yesno'' \<and>
       TrimSpace (TrimSuffix (TrimSuffix (TrimSpace (Split (ToLower u (TrimSpace nlQuery)) ''about'' ! 1))
                    '' in articles'') '' or not'') = []"
proof -
  define lower where "lower = ToLower u (TrimSpace nlQuery)"
  have len: "Contains lower ''about'' \<Longrightarrow> length (Split lower ''about'') > 1"
    by (rule Split_about)
  show ?thesis
    unfolding Translate_def Let_def lower_def[symmetric] using len by auto
qed

text \<open>
  \<^bold>\<open>C4\<close> fails as stated: the returned query can be empty. Input that trims to empty
  falls through to the default branch and comes back as the empty query; a \<open>find\<close>
  question and a \<open>yesno\<close> question in which nothing but white space follows \<open>about\<close>
  yield the empty topic.
\<close>

theorem Translate_empty_counterexample:
  "Translate id ''   '' = ([], ''search'') \<and>
   Translate id ''find article about'' = ([], ''find'') \<and>
   Translate id ''have about'' = ([], ''yesno'')"
  by (simp add: Translate_def strings_eval)

text \<open>
  \<^bold>\<open>C4, amended.\<close> \<open>Translate\<close> is a total function: for every input it returns a query
  and one of the intent types \<open>search\<close>, \<open>count\<close>, \<open>list\<close>, \<open>find\<close>, \<open>yesno\<close>. When none
  of the four lexical patterns matches, the result is the trimmed original text with
  intent \<open>search\<close>, and intent \<open>search\<close> always carries the trimmed original text. The
  returned query is empty in exactly three cases, and non-empty in every other: the intent
  is \<open>search\<close> and the input trims to empty; the intent is \<open>find\<close>, the lower-cased text
  contains \<open>about\<close> and the text between its first \<open>about\<close> and the next one (or the end)
  is blank; the intent is \<open>yesno\<close> and that text, trimmed and without the suffixes
  \<open> in articles\<close> and \<open> or not\<close>, is blank.
\<close>

theorem Translate_total:
  "snd (Translate u nlQuery) \<in> {''search'', ''count'', ''list'', ''find'', ''yesno''} \<and>
   (\<not> (Contains (ToLower u (TrimSpace nlQuery)) ''how many'' \<and>
        (Contains (ToLower u (TrimSpace nlQuery)) ''article'' \<or> Contains (ToLower u (TrimSpace nlQuery)) ''blog'')) \<and>
    \<not> (Contains (ToLower u (TrimSpace nlQuery)) ''list'' \<and>
        (Contains (ToLower u (TrimSpace nlQuery)) ''article'' \<or> Contains (ToLower u (TrimSpace nlQuery)) ''blog'')) \<and>
    \<not> (Contains (ToLower u (TrimSpace nlQuery)) ''find'' \<and> Contains (ToLower u (TrimSpace nlQuery)) ''article'') \<and>
    \<not> ((Contains (ToLower u (TrimSpace nlQuery)) ''have'' \<or> Contains (ToLower u (TrimSpace nlQuery)) ''written about'') \<and>
        Contains (ToLower u (TrimSpace nlQuery)) ''about'')
    \<longrightarrow> Translate u nlQuery = (TrimSpace nlQuery, ''search'')) \<and>
   (snd (Translate u nlQuery) = ''search'' \<longrightarrow> fst (Translate u nlQuery) = TrimSpace nlQuery) \<and>
   (fst (Translate u nlQuery) = [] \<longleftrightarrow>
      snd (Translate u nlQuery) = ''search'' \<and> TrimSpace nlQuery = [] \<or>
      snd (Translate u nlQuery) = ''find'' \<and> Contains (ToLower u (TrimSpace nlQuery)) ''about'' \<and>
        TrimSpace (Split (ToLower u (TrimSpace nlQuery)) ''about'' ! 1) = [] \<or>
      snd (Translate u nlQuery) = ''yesno'' \<and>
        TrimSpace (TrimSuffix (TrimSuffix (TrimSpace (Split (ToLower u (TrimSpace nlQuery)) ''about'' ! 1))
                     '' in articles'') '' or not'') = [])"
  using Translate_intent[of u nlQuery] Translate_default[of u nlQuery] Translate_search[of u nlQuery]
    Translate_empty[of u nlQuery]
  by blast

theorem Translate_total_witness:
  "TrimSpace '' Foo Bar  '' = ''Foo Bar'' \<and> ToLower id ''Foo Bar'' = ''foo bar'' \<and>
   Translate id '' Foo Bar  '' = (''Foo Bar'', ''search'') \<and>
   fst (Translate id '' Foo Bar  '') \<noteq> []"
proof -
  have t: "TrimSpace '' Foo Bar  '' = ''Foo Bar''" by (simp add: strings_eval)
  have l: "ToLower id ''Foo Bar'' = ''foo bar''" by (simp add: strings_eval)
  have c: "\<not> Contains ''foo bar'' ''how many''" "\<not> Contains ''foo bar'' ''list''"
    "\<not> Contains ''foo bar'' ''find''" "\<not> Contains ''foo bar'' ''about''"
    by (simp_all add: Contains_def)
  show ?thesis using Translate_total[of id "'' Foo Bar  ''"] unfolding t l
    by (simp add: c)
qed


section \<open>The search handler: \<open>NLQueryServer.HandleSearch\<close>\<close>

text \<open>
  The handler of the hybrid-aware server. Its collaborators (the LLM translator, the vector
  store, the query parser and the keyword engine) are the fields of an environment; the
  type \<open>'q\<close> is the parsed query. The handler returns the HTTP status, the JSON object it
  encodes (a map from keys to values; the \<open>responseTime\<close> entry, a clock reading, is left
  out) and the calls it made to its collaborators, in order. The field \<open>unicode_ToLower\<close>
  of the environment is the parameter of \<open>ToLower\<close>, which the pattern translator needs.
  The fields of \<open>Intent\<close> carry the prefix \<open>i\<close>.
\<close>

record Intent =
  iType :: string
  iEntity :: string
  iTopic :: string
  iConfidence :: real
  iQuery :: string
  iVariations :: "string list"

datatype jval =
    JString string
  | JBool bool
  | JInt nat
  | JNull
  | JResult "SearchResult option"
  | JSemantic "SemanticSearchResultV2 list"
  | JIntent Intent

type_synonym response = "string \<rightharpoonup> jval"

datatype call =
    CallTranslateWithOpenRouter string
  | CallIsIndexed
  | CallSemanticSearch string nat
  | CallParse string
  | CallSearch
  | CallAnswerFromSnippets string "string list"

record 'q Env =
  unicode_ToLower :: "string \<Rightarrow> string"
  openRouterEnabled :: bool
  TranslateWithOpenRouter :: "string \<Rightarrow> string + (string \<times> Intent)"
  AnswerFromSnippets :: "string \<Rightarrow> string list \<Rightarrow> string"
  semanticSearchNil :: bool
  IsIndexed :: bool
  semanticSearch_Search :: "string \<Rightarrow> nat \<Rightarrow> string + SemanticSearchResultV2 list"
  query_Parse :: "string \<Rightarrow> string + 'q"
  searcher_Search :: "'q \<Rightarrow> SearchResult option \<times> string option"

record Request =
  param_q :: string
  param_mode :: string
  param_direct :: string

record Translation =
  zoektQuery :: string
  intent :: Intent
  queryType :: string
  translatorUsed :: string
  isNL :: bool

definition newline :: string where
  "newline = [CHR 0x0A]"

fun digitsOf :: "nat \<Rightarrow> string" where
  "digitsOf n = (if n < 10 then [''0123456789'' ! n] else digitsOf (n div 10) @ [''0123456789'' ! (n mod 10)])"

declare digitsOf.simps [simp del]

definition basicFallback :: "(string \<Rightarrow> string) \<Rightarrow> string \<Rightarrow> Translation" where
  "basicFallback unicodeLower nlQuery =
     (case Translate unicodeLower nlQuery of (basicQuery, basicQueryType) \<Rightarrow>
        \<lparr>zoektQuery = basicQuery,
         intent = \<lparr>iType = basicQueryType, iEntity = [], iTopic = [], iConfidence = 0.7,
                   iQuery = basicQuery, iVariations = []\<rparr>,
         queryType = basicQueryType,
         translatorUsed = ''basic'',
         isNL = True\<rparr>)"

definition directAnswerResponse :: "string \<Rightarrow> string \<Rightarrow> Intent \<Rightarrow> response" where
  "directAnswerResponse nlQuery directAnswer i = map_of
     [(''originalQuery'', JString nlQuery),
      (''translatedQuery'', JString []),
      (''generatedQuery'', JString []),
      (''queryType'', JString ''answer''),
      (''isNL'', JBool True),
      (''success'', JBool True),
      (''resultCount'', JInt 0),
      (''results'', JNull),
      (''error'', JString []),
      (''yesNoAnswer'', JString directAnswer),
      (''countAnswer'', JString []),
      (''directAnswer'', JString directAnswer),
      (''translatorUsed'', JString ''openrouter''),
      (''intent'', JIntent i)]"

definition translateStep :: "'q Env \<Rightarrow> string \<Rightarrow> bool \<Rightarrow> (response + Translation) \<times> call list" where
  "translateStep env nlQuery directQuery =
     (if directQuery
      then (Inr \<lparr>zoektQuery = nlQuery,
                 intent = \<lparr>iType = ''search'', iEntity = [], iTopic = [], iConfidence = 1.0,
                           iQuery = nlQuery, iVariations = []\<rparr>,
                 queryType = ''search'', translatorUsed = ''direct'', isNL = False\<rparr>, [])
      else if \<not> openRouterEnabled env
      then (Inr (basicFallback (unicode_ToLower env) nlQuery), [])
      else (case TranslateWithOpenRouter env nlQuery of
              Inl err \<Rightarrow> (Inr (basicFallback (unicode_ToLower env) nlQuery), [CallTranslateWithOpenRouter nlQuery])
            | Inr (zq, i) \<Rightarrow>
                if zq = [] then (Inr (basicFallback (unicode_ToLower env) nlQuery), [CallTranslateWithOpenRouter nlQuery])
                else if prefix ''DIRECT_ANSWER:'' zq
                then (Inl (directAnswerResponse nlQuery (drop (length ''DIRECT_ANSWER:'') zq) i),
                      [CallTranslateWithOpenRouter nlQuery])
                else (Inr \<lparr>zoektQuery = zq, intent = i, queryType = iType i,
                           translatorUsed = ''openrouter'', isNL = True\<rparr>,
                      [CallTranslateWithOpenRouter nlQuery])))"

definition semanticStep :: "'q Env \<Rightarrow> string \<Rightarrow> string \<Rightarrow> SemanticSearchResultV2 list \<times> call list" where
  "semanticStep env nlQuery searchMode =
     (if \<not> semanticSearchNil env \<and> (searchMode = ''semantic'' \<or> searchMode = ''hybrid'')
      then (if IsIndexed env
            then (case semanticSearch_Search env nlQuery 20 of
                    Inr semResults \<Rightarrow> (semResults, [CallIsIndexed, CallSemanticSearch nlQuery 20])
                  | Inl err \<Rightarrow> ([], [CallIsIndexed, CallSemanticSearch nlQuery 20]))
            else ([], [CallIsIndexed]))
      else ([], []))"

text \<open>
  The snippet extractor of this server, \<open>extractAnswerSnippets\<close> (here with the suffix
  \<open>_hybrid\<close>: the budgeted extractor of the other server has the same name). For each of
  the first \<open>maxFiles\<close> files it writes the file name and, for each of the first five line
  matches, the context before the match, the line and the context after it.
\<close>

definition snippetOfMatch :: "LineMatch \<Rightarrow> string" where
  "snippetOfMatch match =
     (if length (lm_Before match) > 0 then lm_Before match @ newline else []) @
     lm_Line match @ newline @
     (if length (lm_After match) > 0 then lm_After match @ newline else [])"

definition snippetOfFile :: "FileMatch \<Rightarrow> string" where
  "snippetOfFile file =
     ''File: '' @ fm_FileName file @ newline @
     concat (map snippetOfMatch (take 5 (fm_LineMatches file)))"

definition extractAnswerSnippets_hybrid :: "SearchResult \<Rightarrow> nat \<Rightarrow> string list" where
  "extractAnswerSnippets_hybrid result maxFiles = map snippetOfFile (take maxFiles (sr_Files result))"

definition lineMatchTotal :: "FileMatch list \<Rightarrow> nat" where
  "lineMatchTotal files = foldl (\<lambda>lineMatchCount file. lineMatchCount + length (fm_LineMatches file)) 0 files"

definition semanticResponse :: "string \<Rightarrow> SemanticSearchResultV2 list \<Rightarrow> response" where
  "semanticResponse nlQuery semanticResults = map_of
     [(''originalQuery'', JString nlQuery),
      (''queryType'', JString ''semantic''),
      (''isNL'', JBool True),
      (''success'', JBool True),
      (''resultCount'', JInt (length semanticResults)),
      (''semanticResults'', JSemantic semanticResults),
      (''mode'', JString ''semantic'')]"

definition semanticFallbackResponse :: "string \<Rightarrow> SemanticSearchResultV2 list \<Rightarrow> response" where
  "semanticFallbackResponse nlQuery semanticResults = map_of
     [(''originalQuery'', JString nlQuery),
      (''queryType'', JString ''semantic''),
      (''isNL'', JBool True),
      (''success'', JBool True),
      (''resultCount'', JInt (length semanticResults)),
      (''semanticResults'', JSemantic semanticResults),
      (''mode'', JString ''hybrid''),
      (''note'', JString ''Keyword query failed, using semantic results'')]"

definition parseErrorResponse :: "string \<Rightarrow> string \<Rightarrow> string \<Rightarrow> response" where
  "parseErrorResponse err nlQuery zq = map_of
     [(''error'', JString (''Query parse error: '' @ err)),
      (''originalQuery'', JString nlQuery),
      (''translatedQuery'', JString zq),
      (''success'', JBool False)]"

text \<open>The counters \<open>resultCount\<close> and \<open>lineMatchCount\<close> after the keyword search.\<close>

definition countResults :: "string \<Rightarrow> SearchResult option \<Rightarrow> nat \<times> nat" where
  "countResults qType result =
     (case result of
        None \<Rightarrow> (0, 0)
      | Some r \<Rightarrow>
          (let resultCount = length (sr_Files r);
               lineMatchCount = (if qType = ''count'' then lineMatchTotal (sr_Files r) else 0)
           in (if lineMatchCount > 0 then lineMatchCount else resultCount, lineMatchCount)))"

text \<open>The direct answer to a yes/no question, with the call that produced it.\<close>

definition answerStep ::
  "'q Env \<Rightarrow> string \<Rightarrow> string \<Rightarrow> SearchResult option \<Rightarrow> nat \<Rightarrow> string \<times> call list" where
  "answerStep env nlQuery qType result resultCount =
     (case result of
        None \<Rightarrow> ([], [])
      | Some r \<Rightarrow>
          if qType = ''yesno'' \<and> resultCount > 0
          then (let snippets = extractAnswerSnippets_hybrid r 3
                in if length snippets > 0
                   then (AnswerFromSnippets env nlQuery snippets, [CallAnswerFromSnippets nlQuery snippets])
                   else ([], []))
          else ([], []))"

definition yesNoAnswerOf :: "string \<Rightarrow> string \<Rightarrow> nat \<Rightarrow> string" where
  "yesNoAnswerOf qType directAnswer resultCount =
     (if qType = ''yesno''
      then (if directAnswer \<noteq> [] then directAnswer
            else if resultCount > 0
            then [CHR 0xE2, CHR 0x9C, CHR 0x85] @ '' YES, found '' @ digitsOf resultCount @ '' result(s).''
            else [CHR 0xE2, CHR 0x9D, CHR 0x8C] @ '' NO, no results found.'')
      else [])"

definition countAnswerOf :: "string \<Rightarrow> nat \<Rightarrow> nat \<Rightarrow> string" where
  "countAnswerOf qType lineMatchCount resultCount =
     (if qType = ''count''
      then (if lineMatchCount > 0 then ''Found '' @ digitsOf lineMatchCount @ '' item(s).''
            else if resultCount > 0 then ''Found '' @ digitsOf resultCount @ '' file(s).''
            else ''Found 0 items.'')
      else [])"

definition searchResponse ::
  "string \<Rightarrow> string \<Rightarrow> Translation \<Rightarrow> bool \<Rightarrow> nat \<Rightarrow> SearchResult option \<Rightarrow> string \<Rightarrow> string \<Rightarrow> string
     \<Rightarrow> response" where
  "searchResponse nlQuery searchMode t success resultCount result yesNoAnswer countAnswer directAnswer =
     map_of
       [(''originalQuery'', JString nlQuery),
        (''translatedQuery'', JString (zoektQuery t)),
        (''generatedQuery'', JString (zoektQuery t)),
        (''queryType'', JString (queryType t)),
        (''isNL'', JBool (isNL t)),
        (''success'', JBool success),
        (''resultCount'', JInt resultCount),
        (''results'', JResult result),
        (''error'', JString []),
        (''yesNoAnswer'', JString yesNoAnswer),
        (''countAnswer'', JString countAnswer),
        (''directAnswer'', JString directAnswer),
        (''translatorUsed'', JString (translatorUsed t)),
        (''mode'', JString searchMode),
        (''intent'', JIntent (intent t))]"

text \<open>
  The semantic results are attached to the response, fused in hybrid mode. The handler has
  just called \<open>s.searcher.Search\<close>, so the searcher is set.
\<close>

definition attachSemantic ::
  "string \<Rightarrow> string \<Rightarrow> SemanticSearchResultV2 list \<Rightarrow> SearchResult option \<Rightarrow> response \<Rightarrow> response" where
  "attachSemantic nlQuery searchMode semanticResults result response =
     (if searchMode = ''hybrid'' \<and> length semanticResults > 0 \<and> result \<noteq> None
      then (let enhancedResults = enhanceSemanticWithZoekt False semanticResults result nlQuery
            in response(''semanticResults'' \<mapsto> JSemantic enhancedResults,
                        ''semanticResultCount'' \<mapsto> JInt (length enhancedResults),
                        ''enhanced'' \<mapsto> JBool True))
      else if length semanticResults > 0
      then response(''semanticResults'' \<mapsto> JSemantic semanticResults,
                    ''semanticResultCount'' \<mapsto> JInt (length semanticResults))
      else response)"

definition attachError :: "string option \<Rightarrow> response \<Rightarrow> response" where
  "attachError err response = (case err of None \<Rightarrow> response | Some e \<Rightarrow> response(''error'' \<mapsto> JString e))"

definition keywordStep ::
  "'q Env \<Rightarrow> string \<Rightarrow> string \<Rightarrow> Translation \<Rightarrow> SemanticSearchResultV2 list \<Rightarrow> 'q \<Rightarrow> response \<times> call list" where
  "keywordStep env nlQuery searchMode t semanticResults parsedQuery =
     (case searcher_Search env parsedQuery of (result, err) \<Rightarrow>
      case countResults (queryType t) result of (resultCount, lineMatchCount) \<Rightarrow>
      case answerStep env nlQuery (queryType t) result resultCount of (directAnswer, answerCalls) \<Rightarrow>
        (attachError err
           (attachSemantic nlQuery searchMode semanticResults result
              (searchResponse nlQuery searchMode t (err = None) resultCount result
                 (yesNoAnswerOf (queryType t) directAnswer resultCount)
                 (countAnswerOf (queryType t) lineMatchCount resultCount)
                 directAnswer)),
         CallSearch # answerCalls))"

definition HandleSearch :: "'q Env \<Rightarrow> Request \<Rightarrow> (nat \<times> response) \<times> call list" where
  "HandleSearch env r =
     (let nlQuery = param_q r in
      if nlQuery = []
      then ((400, map_of [(''error'', JString (''Missing query parameter '' @ [CHR 0x27] @ ''q'' @ [CHR 0x27])), (''success'', JBool False)]), [])
      else
        let searchMode = (if param_mode r = [] then ''hybrid'' else param_mode r);
            directQuery = (param_direct r = ''true'')
        in case translateStep env nlQuery directQuery of
             (Inl answer, calls1) \<Rightarrow> ((200, answer), calls1)
           | (Inr t, calls1) \<Rightarrow>
               (case semanticStep env nlQuery searchMode of (semanticResults, calls2) \<Rightarrow>
                  if searchMode = ''semantic'' \<and> length semanticResults > 0
                  then ((200, semanticResponse nlQuery semanticResults), calls1 @ calls2)
                  else (case query_Parse env (zoektQuery t) of
                          Inl err \<Rightarrow>
                            if length semanticResults > 0
                            then ((200, semanticFallbackResponse nlQuery semanticResults),
                                  calls1 @ calls2 @ [CallParse (zoektQuery t)])
                            else ((400, parseErrorResponse err nlQuery (zoektQuery t)),
                                  calls1 @ calls2 @ [CallParse (zoektQuery t)])
                        | Inr parsedQuery \<Rightarrow>
                            (case keywordStep env nlQuery searchMode t semanticResults parsedQuery of
                               (response, calls3) \<Rightarrow>
                                 ((200, response), calls1 @ calls2 @ [CallParse (zoektQuery t)] @ calls3)))))"














lemma translateStep_calls:
  "translateStep env nlQuery directQuery = (x, calls) \<Longrightarrow> set calls \<subseteq> {CallTranslateWithOpenRouter nlQuery}"
  by (auto simp: translateStep_def split: if_splits sum.splits prod.splits)


lemma semanticStep_calls:
  "semanticStep env nlQuery searchMode = (sem, calls) \<Longrightarrow>
   set calls \<subseteq> {CallIsIndexed, CallSemanticSearch nlQuery 20}"
  by (auto simp: semanticStep_def split: if_splits sum.splits)



lemma HandleSearch_steps:
  assumes "param_q r \<noteq> []"
      and "translateStep env (param_q r) (param_direct r = ''true'') = (Inr t, calls1)"
      and "semanticStep env (param_q r) (if param_mode r = [] then ''hybrid'' else param_mode r) = (sem, calls2)"
  shows "HandleSearch env r =
     (if (if param_mode r = [] then ''hybrid'' else param_mode r) = ''semantic'' \<and> length sem > 0
      then ((200, semanticResponse (param_q r) sem), calls1 @ calls2)
      else (case query_Parse env (zoektQuery t) of
              Inl err \<Rightarrow>
                if length sem > 0
                then ((200, semanticFallbackResponse (param_q r) sem), calls1 @ calls2 @ [CallParse (zoektQuery t)])
                else ((400, parseErrorResponse err (param_q r) (zoektQuery t)),
                      calls1 @ calls2 @ [CallParse (zoektQuery t)])
            | Inr parsedQuery \<Rightarrow>
                ((200, fst (keywordStep env (param_q r) (if param_mode r = [] then ''hybrid'' else param_mode r)
                              t sem parsedQuery)),
                 calls1 @ calls2 @ [CallParse (zoektQuery t)] @
                 snd (keywordStep env (param_q r) (if param_mode r = [] then ''hybrid'' else param_mode r)
                        t sem parsedQuery))))"
  using assms by (simp add: HandleSearch_def Let_def split: sum.splits prod.splits)


definition exampleEnv :: "string Env" where
  "exampleEnv =
     \<lparr>unicode_ToLower = id,
      openRouterEnabled = True,
      TranslateWithOpenRouter = (\<lambda>q. Inr (''foo'',
         \<lparr>iType = ''search'', iEntity = [], iTopic = [], iConfidence = 0.95, iQuery = ''foo'', iVariations = []\<rparr>)),
      AnswerFromSnippets = (\<lambda>q snippets. []),
      semanticSearchNil = False,
      IsIndexed = False,
      semanticSearch_Search = (\<lambda>q k. Inr [semMatch ''c1'' ''a.py'' 0.5 0.5]),
      query_Parse = (\<lambda>q. if q = ''foo('' then Inl ''missing )'' else Inr q),
      searcher_Search = (\<lambda>p. (Some \<lparr>sr_Files = [kwFile ''a.py'']\<rparr>, None))\<rparr>"

definition exampleRequest :: "string \<Rightarrow> string \<Rightarrow> Request" where
  "exampleRequest q m = \<lparr>param_q = q, param_mode = m, param_direct = []\<rparr>"







text \<open>
  \<^bold>\<open>C6.\<close> In hybrid mode (the default), when the generated keyword query fails to parse:
  if semantic search returned at least one result, the response has status 200,
  \<open>success = true\<close>, the semantic results and the explanatory note, no keyword results,
  and no keyword search was run; if there are no semantic results, the response is the
  parse-error object with status 400 and \<open>success = false\<close>.
\<close>

theorem parse_failure_fallback:
  assumes "param_q r \<noteq> []"
      and "param_mode r = [] \<or> param_mode r = ''hybrid''"
      and "translateStep env (param_q r) (param_direct r = ''true'') = (Inr t, calls1)"
      and "query_Parse env (zoektQuery t) = Inl err"
  shows "(fst (semanticStep env (param_q r) ''hybrid'') \<noteq> [] \<longrightarrow>
            fst (fst (HandleSearch env r)) = 200 \<and>
            snd (fst (HandleSearch env r)) ''success'' = Some (JBool True) \<and>
            snd (fst (HandleSearch env r)) ''semanticResults'' =
              Some (JSemantic (fst (semanticStep env (param_q r) ''hybrid''))) \<and>
            snd (fst (HandleSearch env r)) ''note'' =
              Some (JString ''Keyword query failed, using semantic results'') \<and>
            snd (fst (HandleSearch env r)) ''results'' = None \<and>
            CallSearch \<notin> set (snd (HandleSearch env r))) \<and>
         (fst (semanticStep env (param_q r) ''hybrid'') = [] \<longrightarrow>
            fst (fst (HandleSearch env r)) = 400 \<and>
            snd (fst (HandleSearch env r)) ''success'' = Some (JBool False) \<and>
            snd (fst (HandleSearch env r)) ''error'' = Some (JString (''Query parse error: '' @ err)) \<and>
            snd (fst (HandleSearch env r)) ''originalQuery'' = Some (JString (param_q r)) \<and>
            snd (fst (HandleSearch env r)) ''translatedQuery'' = Some (JString (zoektQuery t)))"
proof -
  obtain sem calls2 where sm: "semanticStep env (param_q r) ''hybrid'' = (sem, calls2)"
    by (cases "semanticStep env (param_q r) ''hybrid''")
  have mode: "(if param_mode r = [] then ''hybrid'' else param_mode r) = ''hybrid''"
    using assms(2) by auto
  have steps: "HandleSearch env r =
      (if length sem > 0
       then ((200, semanticFallbackResponse (param_q r) sem), calls1 @ calls2 @ [CallParse (zoektQuery t)])
       else ((400, parseErrorResponse err (param_q r) (zoektQuery t)),
             calls1 @ calls2 @ [CallParse (zoektQuery t)]))"
    using HandleSearch_steps[OF assms(1) assms(3), of sem calls2] sm assms(4) unfolding mode
    by simp
  have c1: "set calls1 \<subseteq> {CallTranslateWithOpenRouter (param_q r)}"
    using translateStep_calls[OF assms(3)] .
  have c2: "set calls2 \<subseteq> {CallIsIndexed, CallSemanticSearch (param_q r) 20}"
    using semanticStep_calls[OF sm] .
  show ?thesis
  proof (cases "sem = []")
    case True
    then show ?thesis using steps sm by (simp add: parseErrorResponse_def)
  next
    case False
    have "CallSearch \<notin> set (calls1 @ calls2 @ [CallParse (zoektQuery t)])"
      using c1 c2 by auto
    then show ?thesis using False steps sm by (simp add: semanticFallbackResponse_def)
  qed
qed

definition hybridEnv :: "string Env" where
  "hybridEnv = exampleEnv\<lparr>IsIndexed := True,
      TranslateWithOpenRouter := (\<lambda>q. Inr (''foo('',
         \<lparr>iType = ''search'', iEntity = [], iTopic = [], iConfidence = 0.95, iQuery = ''foo('', iVariations = []\<rparr>))\<rparr>"

theorem parse_failure_fallback_witness:
  "param_q (exampleRequest ''where is foo'' ''hybrid'') \<noteq> [] \<and>
   param_mode (exampleRequest ''where is foo'' ''hybrid'') = ''hybrid'' \<and>
   query_Parse hybridEnv ''foo('' = Inl ''missing )'' \<and>
   fst (semanticStep hybridEnv ''where is foo'' ''hybrid'') = [semMatch ''c1'' ''a.py'' 0.5 0.5] \<and>
   snd (fst (HandleSearch hybridEnv (exampleRequest ''where is foo'' ''hybrid''))) ''success'' = Some (JBool True) \<and>
   snd (fst (HandleSearch hybridEnv (exampleRequest ''where is foo'' ''hybrid''))) ''semanticResults'' =
     Some (JSemantic [semMatch ''c1'' ''a.py'' 0.5 0.5]) \<and>
   query_Parse (hybridEnv\<lparr>IsIndexed := False\<rparr>) ''foo('' = Inl ''missing )'' \<and>
   fst (semanticStep (hybridEnv\<lparr>IsIndexed := False\<rparr>) ''where is foo'' ''hybrid'') = [] \<and>
   snd (fst (HandleSearch (hybridEnv\<lparr>IsIndexed := False\<rparr>) (exampleRequest ''where is foo'' ''hybrid''))) ''success'' =
     Some (JBool False)"
proof -
  let ?r = "exampleRequest ''where is foo'' ''hybrid''"
  let ?t = "\<lparr>zoektQuery = ''foo('', intent = snd (projr (TranslateWithOpenRouter hybridEnv ''where is foo'')),
             queryType = ''search'', translatorUsed = ''openrouter'', isNL = True\<rparr>"
  have h1: "param_q ?r \<noteq> []" and h2: "param_mode ?r = [] \<or> param_mode ?r = ''hybrid''"
    by (simp_all add: exampleRequest_def)
  have t: "translateStep hybridEnv (param_q ?r) (param_direct ?r = ''true'') =
             (Inr ?t, [CallTranslateWithOpenRouter ''where is foo''])"
    by (simp add: translateStep_def hybridEnv_def exampleEnv_def exampleRequest_def)
  have t': "translateStep (hybridEnv\<lparr>IsIndexed := False\<rparr>) (param_q ?r) (param_direct ?r = ''true'') =
             (Inr ?t, [CallTranslateWithOpenRouter ''where is foo''])"
    by (simp add: translateStep_def hybridEnv_def exampleEnv_def exampleRequest_def)
  have p: "query_Parse hybridEnv (zoektQuery ?t) = Inl ''missing )''"
    by (simp add: hybridEnv_def exampleEnv_def)
  have p': "query_Parse (hybridEnv\<lparr>IsIndexed := False\<rparr>) (zoektQuery ?t) = Inl ''missing )''"
    by (simp add: hybridEnv_def exampleEnv_def)
  have s: "fst (semanticStep hybridEnv ''where is foo'' ''hybrid'') = [semMatch ''c1'' ''a.py'' 0.5 0.5]"
    by (simp add: semanticStep_def hybridEnv_def exampleEnv_def)
  have s': "fst (semanticStep (hybridEnv\<lparr>IsIndexed := False\<rparr>) ''where is foo'' ''hybrid'') = []"
    by (simp add: semanticStep_def hybridEnv_def exampleEnv_def)
  show ?thesis
    using h1 p p' s s' parse_failure_fallback[OF h1 h2 t p] parse_failure_fallback[OF h1 h2 t' p']
    by (simp add: exampleRequest_def)
qed











section \<open>Snippet extraction: \<open>extractAnswerSnippets\<close>\<close>






















subsection \<open>The budget invariant\<close>




















subsection \<open>The two extractors and the line budget\<close>

















section \<open>Quote repair: \<open>validateAndFixQuery\<close>\<close>

text \<open>
  \<open>validateAndFixQuery\<close> first appends a closing quote (\<open>closingQuoteFix\<close>: the
  \<open>content:"\<close> test, then the \<open>file:"\<close> test) and then, if the backend's parser (a
  parameter) rejects the result, strips \<open>content:"\<close> wrappers. \<open>TranslateWithOpenRouter\<close>
  calls it on the query it extracted from the completion. \<open>LastIndex\<close> is total here
  (\<open>None\<close> for Go's \<open>-1\<close>); the source slices only under the \<open>Contains\<close> guard.
\<close>

fun LastIndex :: "string \<Rightarrow> string \<Rightarrow> nat option" where
  "LastIndex [] substr = (if substr = [] then Some 0 else None)"
| "LastIndex (c # cs) substr =
     (case LastIndex cs substr of
        Some i \<Rightarrow> Some (Suc i)
      | None \<Rightarrow> if prefix substr (c # cs) then Some 0 else None)"

function Count :: "string \<Rightarrow> string \<Rightarrow> nat" where
  "Count s substr =
     (if substr = [] then length s + 1
      else case Index s substr of
             None \<Rightarrow> 0
           | Some m \<Rightarrow> 1 + Count (drop (m + length substr) s) substr)"
  by pat_completeness auto
termination
proof (relation "measure (\<lambda>(s, substr). length s)")
  show "wf (measure (\<lambda>(s, substr). length s))" by simp
next
  fix s substr :: string and m :: nat
  assume "substr \<noteq> []" "Index s substr = Some m"
  then have "m + length substr \<le> length s" "length substr \<noteq> 0"
    by (auto dest: Index_bound)
  then have "length s - (m + length substr) < length s"
    by linarith
  then show "((drop (m + length substr) s, substr), (s, substr)) \<in> measure (\<lambda>(s, substr). length s)"
    by simp
qed

declare Count.simps [simp del]

definition fixContentQuote :: "string \<Rightarrow> string" where
  \<open>fixContentQuote queryStr =
     (if Contains queryStr ''content:"''
      then (let trimmed = TrimSpace queryStr
            in if \<not> suffix ''"'' trimmed then queryStr @ ''"'' else queryStr)
      else queryStr)\<close>

definition fixFileQuote :: "string \<Rightarrow> string" where
  \<open>fixFileQuote queryStr =
     (if Contains queryStr ''file:"''
      then (case LastIndex queryStr ''file:"'' of
              None \<Rightarrow> queryStr
            | Some lastFileIdx \<Rightarrow>
                (let afterFile = drop (lastFileIdx + 6) queryStr;
                     quoteCount = Count afterFile ''"''
                 in if quoteCount = 0 then queryStr @ ''"'' else queryStr))
      else queryStr)\<close>

definition closingQuoteFix :: "string \<Rightarrow> string" where
  "closingQuoteFix q = fixFileQuote (fixContentQuote q)"

definition cleanPart :: "string \<Rightarrow> string list" where
  \<open>cleanPart part =
     (if prefix ''content:"'' part
      then (let term = TrimSuffix (TrimPrefix part ''content:"'') ''"''
            in if term \<noteq> [] then [term] else [])
      else if \<not> prefix ''content:'' part then [part]
      else [])\<close>

definition validateAndFixQuery :: "(string \<Rightarrow> string + 'q) \<Rightarrow> string \<Rightarrow> string" where
  \<open>validateAndFixQuery parse q =
     (let queryStr = closingQuoteFix q
      in case parse queryStr of
           Inr parsed \<Rightarrow> queryStr
         | Inl err \<Rightarrow>
             if Contains queryStr ''content:"''
             then (let cleanParts = concat (map cleanPart (Fields queryStr))
                   in if length cleanParts > 0 then Join cleanParts '' '' else queryStr)
             else queryStr)\<close>

text \<open>
  \<^bold>\<open>C8.\<close> The code departs from the claim on a query whose quotes are balanced.
  The completion \<open>content:"TODO" lang:go\<close> passes the extraction unchanged (it has no
  \<open>file:\<close>) and reaches \<open>validateAndFixQuery\<close>. It has two quotes, yet the
  \<open>content:"\<close> test only looks at whether the trimmed query ends in a quote, so a third
  quote is appended; if the parser then rejects the query, the cleanup returns
  \<open>TODO lang:go"\<close>. Either way the result differs from the balanced input. The
  \<open>file:"\<close> test, which counts the quotes after the last \<open>file:"\<close>, leaves the
  corresponding query \<open>file:"a.go" lang:go\<close> unchanged.
\<close>

theorem validateAndFixQuery_balanced:
  \<open>Count ''content:"TODO" lang:go'' ''"'' = 2 \<and>
   closingQuoteFix ''content:"TODO" lang:go'' = ''content:"TODO" lang:go"'' \<and>
   validateAndFixQuery parse ''content:"TODO" lang:go'' =
     (case parse ''content:"TODO" lang:go"'' of
        Inr parsed \<Rightarrow> ''content:"TODO" lang:go"''
      | Inl err \<Rightarrow> ''TODO lang:go"'') \<and>
   closingQuoteFix ''file:"a.go" lang:go'' = ''file:"a.go" lang:go''\<close>
  by (simp add: validateAndFixQuery_def closingQuoteFix_def fixContentQuote_def fixFileQuote_def
        cleanPart_def Count.simps strings_eval split: sum.splits)


end
